theory Spec2Isabelle
  imports Main "HOL-Library.Word" "HOL-Library.Multiset"
begin

section \<open>The IP filter list of \<^verbatim>\<open>g_svcmds.c\<close>\<close>

text \<open>
  The file keeps a fixed array \<^verbatim>\<open>ipfilter_t ipfilters[MAX_IPFILTERS]\<close> and a counter
  \<^verbatim>\<open>unsigned numipfilters\<close>. The commands \<^verbatim>\<open>sv addip\<close>, \<^verbatim>\<open>sv removeip\<close>,
  \<^verbatim>\<open>sv writeip\<close> and the connection hook \<^verbatim>\<open>SV_FilterPacket\<close> work on them; every one
  of them first calls \<^verbatim>\<open>TDM_CheckBans\<close>, which drops the timed bans that are over.

  Each C function becomes a HOL function that takes the two globals as a record and
  returns the record it leaves behind. What the C functions read from outside this file
  is an argument of the model:
  \<^item> \<^verbatim>\<open>time(NULL)\<close> is the argument \<open>t\<close> (a \<^verbatim>\<open>time_t\<close>, an integer);
  \<^item> \<^verbatim>\<open>filterban->value\<close> is the argument \<open>filterban\<close>; the configuration file sets it with
    \<^verbatim>\<open>set filterban %d\<close>, so it is taken as an integer, and \<^verbatim>\<open>(int) filterban->value\<close>
    is the value itself, \<^verbatim>\<open>!filterban->value\<close> is 1 when it is zero and 0 otherwise;
  \<^item> \<^verbatim>\<open>net_parseIPAddressMask\<close>, \<^verbatim>\<open>net_contains\<close> and \<^verbatim>\<open>IPMASK\<close> are defined in
    another file; they are function arguments, and nothing is assumed about them;
  \<^item> \<^verbatim>\<open>MAX_IPFILTERS\<close> is defined in a header; it is an argument of \<^verbatim>\<open>SVCmd_AddIP_f\<close>.
\<close>

subsection \<open>Data\<close>

text \<open>
  Modelled from the spec: \<^verbatim>\<open>netadr_t\<close> is declared in a header that is not among the
  sources. Its fields follow the specification's AddressMask: an address family, the raw
  address bytes and the prefix length in bits (the field \<^verbatim>\<open>mask_bits\<close> that
  \<^verbatim>\<open>SVCmd_RemoveIP_f\<close> reads).
\<close>

record netadr_t =
  family :: "8 word"
  bytes :: "8 word list"
  mask_bits :: "8 word"

text \<open>
  \<^verbatim>\<open>ipfilter_t\<close> has the two fields the code uses, \<^verbatim>\<open>addr\<close> and \<^verbatim>\<open>expire\<close>. The expiry is
  a 32-bit field: \<^verbatim>\<open>TDM_CheckBans\<close> compares it with \<^verbatim>\<open>unsigned now\<close>, so the comparison
  is the unsigned one whether the field is declared \<^verbatim>\<open>unsigned\<close> or \<^verbatim>\<open>int\<close>, and the
  \<^verbatim>\<open>-1\<close> that \<^verbatim>\<open>StringToFilter\<close> stores is the word with all bits set.
\<close>

record ipfilter_t =
  addr :: netadr_t
  expire :: "32 word"

record filter_state =
  ipfilters :: "ipfilter_t list"
  numipfilters :: "32 word"

text \<open>The value \<^verbatim>\<open>memset(..., 0, sizeof(ipfilter_t))\<close> leaves in a slot.\<close>

definition zero_netadr :: netadr_t where
  "zero_netadr = \<lparr>family = 0, bytes = replicate 16 0, mask_bits = 0\<rparr>"

definition zero_filter :: ipfilter_t where
  "zero_filter = \<lparr>addr = zero_netadr, expire = 0\<rparr>"

text \<open>
  The counter never exceeds the array: every index the code uses is inside the array
  exactly when this holds. The entries of the store are the first \<^verbatim>\<open>numipfilters\<close> slots.
\<close>

definition wf_state :: "filter_state \<Rightarrow> bool" where
  "wf_state st \<longleftrightarrow> unat (numipfilters st) \<le> length (ipfilters st)"

definition entries :: "filter_state \<Rightarrow> ipfilter_t list" where
  "entries st = take (unat (numipfilters st)) (ipfilters st)"

text \<open>
  The sentinel of a permanent entry, as \<^verbatim>\<open>StringToFilter\<close> stores it and
  \<^verbatim>\<open>SVCmd_ListIP_f\<close> tests it (\<^verbatim>\<open>expire == -1\<close>).
\<close>

definition permanent :: "ipfilter_t \<Rightarrow> bool" where
  "permanent e \<longleftrightarrow> expire e = - 1"

subsection \<open>StringToFilter\<close>

text \<open>
  \<^verbatim>\<open>
  qboolean StringToFilter(const char *s, ipfilter_t *f, int seconds) {
      memset(&f->addr, 0, sizeof(netadr_t));
      f->addr = net_parseIPAddressMask(s);
      if (seconds) { f->expire = time(NULL) + seconds; } else { f->expire = -1; }
      return true;
  }
  \<close>
  Both fields of \<^verbatim>\<open>*f\<close> are overwritten, so the model returns the filter together with
  the boolean. The sum \<^verbatim>\<open>time(NULL) + seconds\<close> is cut to the 32 bits of the field.
\<close>

definition StringToFilter ::
    "(string \<Rightarrow> netadr_t) \<Rightarrow> int \<Rightarrow> string \<Rightarrow> int \<Rightarrow> bool \<times> ipfilter_t" where
  "StringToFilter net_parseIPAddressMask t s seconds =
     (let a = net_parseIPAddressMask s;
          e = (if seconds \<noteq> 0 then word_of_int (t + seconds) else - 1)
      in (True, \<lparr>addr = a, expire = e\<rparr>))"

subsection \<open>RemoveIP\<close>

text \<open>
  \<^verbatim>\<open>
  void RemoveIP(int i) {
      int *target = ((int*) &ipfilters[i]);
      int *last = ((int*) &ipfilters[numipfilters - 1]);
      memcpy(target, last, sizeof(ipfilter_t));
      memset(last, 0, sizeof(ipfilter_t));
      numipfilters--;
  }
  \<close>
  The index is a \<open>nat\<close>: every caller passes a value below \<^verbatim>\<open>numipfilters\<close>.
\<close>

definition RemoveIP :: "nat \<Rightarrow> filter_state \<Rightarrow> filter_state" where
  "RemoveIP i st =
     (let last = unat (numipfilters st - 1);
          copied = (ipfilters st)[i := ipfilters st ! last];
          zeroed = copied[last := zero_filter]
      in st\<lparr>ipfilters := zeroed, numipfilters := numipfilters st - 1\<rparr>)"

subsection \<open>TDM_CheckBans\<close>

text \<open>
  \<^verbatim>\<open>
  void TDM_CheckBans(void) {
      unsigned i;
      unsigned now;
      now = (unsigned) time(NULL);
      for (i = 0; i < numipfilters; i++) {
          if (ipfilters[i].expire && ipfilters[i].expire < now) {
              RemoveIP(i);
              i--;
          }
      }
  }
  \<close>
  The loop index is an \<^verbatim>\<open>unsigned\<close>: after a removal at index 0 the \<^verbatim>\<open>i--\<close> wraps to
  the largest value and the \<^verbatim>\<open>i++\<close> of the loop header wraps back to 0. The model keeps
  both steps, on a 32-bit word.
\<close>

definition expired :: "32 word \<Rightarrow> ipfilter_t \<Rightarrow> bool" where
  "expired now e \<longleftrightarrow> expire e \<noteq> 0 \<and> expire e < now"

function CheckBans_loop :: "32 word \<Rightarrow> 32 word \<Rightarrow> filter_state \<Rightarrow> filter_state" where
  "CheckBans_loop now i st =
     (if i < numipfilters st then
        (if expired now (ipfilters st ! unat i)
         then CheckBans_loop now ((i - 1) + 1) (RemoveIP (unat i) st)
         else CheckBans_loop now (i + 1) st)
      else st)"
  by pat_completeness auto
termination
proof (relation "measure (\<lambda>(now, i, st). 2 * unat (numipfilters st) - unat i)")
  show "wf (measure (\<lambda>(now, i, st). 2 * unat (numipfilters st) - unat i))"
    by simp
next
  fix now i :: "32 word" and st :: filter_state
  assume lt: "i < numipfilters st"
  then have n0: "numipfilters st \<noteq> 0"
    by auto
  have il: "unat i < unat (numipfilters st)"
    using lt by (simp add: word_less_nat_alt)
  have "unat (numipfilters st - 1) = unat (numipfilters st) - 1"
    using n0 by (rule unat_minus_one)
  then show "((now, i - 1 + 1, RemoveIP (unat i) st), (now, i, st))
      \<in> measure (\<lambda>(now, i, st). 2 * unat (numipfilters st) - unat i)"
    using il by (simp add: RemoveIP_def Let_def)
next
  fix now i :: "32 word" and st :: filter_state
  assume lt: "i < numipfilters st"
  have il: "unat i < unat (numipfilters st)"
    using lt by (simp add: word_less_nat_alt)
  have "unat (numipfilters st) < 2 ^ 32"
    using unsigned_less [of "numipfilters st"] by simp
  with il have "unat i + unat (1 :: 32 word) < 2 ^ LENGTH(32)"
    by simp
  then have "unat (i + 1) = unat i + unat (1 :: 32 word)"
    by (simp only: unat_add_lem)
  then show "((now, i + 1, st), (now, i, st))
      \<in> measure (\<lambda>(now, i, st). 2 * unat (numipfilters st) - unat i)"
    using il by simp
qed

declare CheckBans_loop.simps [simp del]

definition TDM_CheckBans :: "int \<Rightarrow> filter_state \<Rightarrow> filter_state" where
  "TDM_CheckBans t st = CheckBans_loop (word_of_int t) 0 st"

subsection \<open>SV_FilterPacket\<close>

text \<open>
  \<^verbatim>\<open>
  qboolean SV_FilterPacket(netadr_t *addr) {
      int i;
      TDM_CheckBans();
      for (i = 0; i < numipfilters; i++) {
          if (net_contains(&ipfilters[i].addr, addr)) {
              return (int) filterban->value;
          }
      }
      return (int) !filterban->value;
  }
  \<close>
  The index of this loop only counts up from 0 to \<^verbatim>\<open>numipfilters\<close>, so it is a \<open>nat\<close>.
  The result is the C integer. A result that is not zero says that the packet is to be
  filtered out: by the comment at the head of the file, \<^verbatim>\<open>filterban\<close> set means that
  matching clients are not allowed to connect, and a match returns \<^verbatim>\<open>filterban\<close>.
\<close>

function FilterPacket_loop ::
    "(netadr_t \<Rightarrow> netadr_t \<Rightarrow> bool) \<Rightarrow> int \<Rightarrow> netadr_t \<Rightarrow> nat \<Rightarrow> filter_state \<Rightarrow> int" where
  "FilterPacket_loop net_contains filterban a i st =
     (if i < unat (numipfilters st) then
        (if net_contains (addr (ipfilters st ! i)) a then filterban
         else FilterPacket_loop net_contains filterban a (i + 1) st)
      else (if filterban = 0 then 1 else 0))"
  by pat_completeness auto
termination
  by (relation "measure (\<lambda>(c, fb, a, i, st). unat (numipfilters st) - i)") auto

declare FilterPacket_loop.simps [simp del]

definition SV_FilterPacket ::
    "(netadr_t \<Rightarrow> netadr_t \<Rightarrow> bool) \<Rightarrow> int \<Rightarrow> int \<Rightarrow> netadr_t \<Rightarrow> filter_state
      \<Rightarrow> int \<times> filter_state" where
  "SV_FilterPacket net_contains filterban t a st =
     (let st1 = TDM_CheckBans t st
      in (FilterPacket_loop net_contains filterban a 0 st1, st1))"

subsection \<open>SVCmd_AddIP_f\<close>

text \<open>
  The ways the command ends: the usage message, the message
  \<^verbatim>\<open>IP filter list is full\<close>, the silent return when \<^verbatim>\<open>StringToFilter\<close> reports
  a bad address, and the insertion.
\<close>

datatype add_outcome = AddUsage | Full | AddBadAddress | Added

text \<open>
  \<^verbatim>\<open>
  void SVCmd_AddIP_f(edict_t *ent, char *ip, int expiry) {
      ipfilter_t new_filter;
      if (!ip[0]) { gi.cprintf(ent, PRINT_HIGH, "Usage: ..."); return; }
      TDM_CheckBans();
      if (numipfilters == MAX_IPFILTERS) {
          gi.cprintf(ent, PRINT_HIGH, "IP filter list is full\n");
          return;
      }
      expiry *= 60;
      if (!StringToFilter(ip, &new_filter, expiry)) { return; }
      ipfilters[numipfilters] = new_filter;
      numipfilters++;
  }
  \<close>
  \<^verbatim>\<open>ent\<close> only chooses the wording of the messages. The duration is a mathematical
  integer (a product that leaves the range of \<^verbatim>\<open>int\<close> is undefined in C).
\<close>

definition SVCmd_AddIP_f ::
    "(string \<Rightarrow> netadr_t) \<Rightarrow> 32 word \<Rightarrow> int \<Rightarrow> string \<Rightarrow> int \<Rightarrow> filter_state
      \<Rightarrow> add_outcome \<times> filter_state" where
  "SVCmd_AddIP_f net_parseIPAddressMask MAX_IPFILTERS t ip expiry st =
     (if ip = [] then (AddUsage, st)
      else
        let st1 = TDM_CheckBans t st in
        if numipfilters st1 = MAX_IPFILTERS then (Full, st1)
        else
          let (ok, new_filter) = StringToFilter net_parseIPAddressMask t ip (expiry * 60) in
          if \<not> ok then (AddBadAddress, st1)
          else (Added, st1\<lparr>ipfilters := (ipfilters st1)[unat (numipfilters st1) := new_filter],
                             numipfilters := numipfilters st1 + 1\<rparr>))"

subsection \<open>SVCmd_RemoveIP_f\<close>






subsection \<open>SVCmd_WriteIP_f\<close>

text \<open>\<^verbatim>\<open>%d\<close> of \<^verbatim>\<open>fprintf\<close>: the decimal digits of an integer.\<close>

fun show_nat :: "nat \<Rightarrow> string" where
  "show_nat n =
     (if n < 10 then [''0123456789'' ! n]
      else show_nat (n div 10) @ [''0123456789'' ! (n mod 10)])"

definition show_int :: "int \<Rightarrow> string" where
  "show_int k = (if k < 0 then CHR ''-'' # show_nat (nat (- k)) else show_nat (nat k))"

text \<open>
  \<^verbatim>\<open>
  void SVCmd_WriteIP_f(void) {
      ...
      f = fopen(name, "wb");
      if (!f) { gi.cprintf(NULL, PRINT_HIGH, "Couldn't open %s\n", name); return; }
      fprintf(f, "set filterban %d\n", (int) filterban->value);
      TDM_CheckBans();
      for (i = 0; i < numipfilters; i++) {
          // only write permanent bans to disk
          if (ipfilters[i].expire) { continue; }
          fprintf(f, "sv addip %s\n", IPMASK(&ipfilters[i].addr));
      }
      fclose(f);
  }
  \<close>
  The file written is the list of its lines, each the text of one \<^verbatim>\<open>fprintf\<close> without
  the newline that ends it; \<open>None\<close> is the failure of \<^verbatim>\<open>fopen\<close>, which is the argument
  \<open>fopen_ok\<close>.
\<close>

function WriteIP_loop :: "(netadr_t \<Rightarrow> string) \<Rightarrow> nat \<Rightarrow> filter_state \<Rightarrow> string list" where
  "WriteIP_loop IPMASK i st =
     (if i < unat (numipfilters st) then
        (if expire (ipfilters st ! i) \<noteq> 0 then WriteIP_loop IPMASK (i + 1) st
         else (''sv addip '' @ IPMASK (addr (ipfilters st ! i))) # WriteIP_loop IPMASK (i + 1) st)
      else [])"
  by pat_completeness auto
termination
  by (relation "measure (\<lambda>(m, i, st). unat (numipfilters st) - i)") auto

declare WriteIP_loop.simps [simp del]

definition SVCmd_WriteIP_f ::
    "(netadr_t \<Rightarrow> string) \<Rightarrow> int \<Rightarrow> int \<Rightarrow> bool \<Rightarrow> filter_state
      \<Rightarrow> string list option \<times> filter_state" where
  "SVCmd_WriteIP_f IPMASK filterban t fopen_ok st =
     (if \<not> fopen_ok then (None, st)
      else
        let st1 = TDM_CheckBans t st
        in (Some ((''set filterban '' @ show_int filterban) # WriteIP_loop IPMASK 0 st1), st1))"

subsection \<open>Example stores\<close>

text \<open>
  Concrete values on which the theorems below are instantiated: host addresses
  \<^verbatim>\<open>192.0.2.d\<close>, and a store with an array of \<open>cap\<close> slots whose first slots
  hold the given entries while the others are zeroed.
\<close>

definition ex_addr :: "8 word \<Rightarrow> netadr_t" where
  "ex_addr d = \<lparr>family = 4, bytes = [192, 0, 2, d], mask_bits = 32\<rparr>"

definition ex_entry :: "8 word \<Rightarrow> 32 word \<Rightarrow> ipfilter_t" where
  "ex_entry d e = \<lparr>addr = ex_addr d, expire = e\<rparr>"

definition ex_store :: "nat \<Rightarrow> ipfilter_t list \<Rightarrow> filter_state" where
  "ex_store cap es =
     \<lparr>ipfilters = es @ replicate (cap - length es) zero_filter,
      numipfilters = of_nat (length es)\<rparr>"

text \<open>Sweeping once per clock reading, in the order of the list.\<close>

fun sweeps :: "int list \<Rightarrow> filter_state \<Rightarrow> filter_state" where
  "sweeps [] st = st"
| "sweeps (t # ts) st = sweeps ts (TDM_CheckBans t st)"

subsection \<open>Exact match of two masks\<close>


section \<open>Properties\<close>

subsection \<open>Swap removal\<close>

lemma unat_pred: fixes n :: "32 word" assumes "i < unat n" shows "unat (n - 1) = unat n - 1"
proof -
  from assms have "n \<noteq> 0" by (auto simp: unat_gt_0 [symmetric])
  then show ?thesis by (rule unat_minus_one)
qed

lemma numipfilters_RemoveIP: "numipfilters (RemoveIP i st) = numipfilters st - 1"
  by (simp add: RemoveIP_def Let_def)

lemma length_RemoveIP: "length (ipfilters (RemoveIP i st)) = length (ipfilters st)"
  by (simp add: RemoveIP_def Let_def)

lemma wf_RemoveIP:
  assumes "wf_state st" and "i < unat (numipfilters st)"
  shows "wf_state (RemoveIP i st)"
  using assms unat_pred [OF assms(2)]
  by (simp add: wf_state_def numipfilters_RemoveIP length_RemoveIP)

lemma length_entries: "wf_state st \<Longrightarrow> length (entries st) = unat (numipfilters st)"
  by (simp add: wf_state_def entries_def)

lemma entries_RemoveIP:
  assumes wf: "wf_state st" and i: "i < unat (numipfilters st)"
  shows "entries (RemoveIP i st) = butlast ((entries st)[i := last (entries st)])"
proof -
  let ?n = "unat (numipfilters st)"
  let ?fs = "ipfilters st"
  have n1: "unat (numipfilters st - 1) = ?n - 1" using i by (rule unat_pred)
  have len: "?n \<le> length ?fs" using wf by (simp add: wf_state_def)
  have ne: "entries st \<noteq> []" using i len by (auto simp: entries_def)
  have last: "last (entries st) = ?fs ! (?n - 1)"
    using i len ne by (simp add: entries_def last_conv_nth)
  have "entries (RemoveIP i st) = take (?n - 1) (?fs[i := ?fs ! (?n - 1)])"
    by (simp add: entries_def RemoveIP_def Let_def n1)
  also have "\<dots> = butlast (take ?n (?fs[i := ?fs ! (?n - 1)]))"
    using len i by (simp add: butlast_take)
  also have "\<dots> = butlast ((take ?n ?fs)[i := ?fs ! (?n - 1)])"
    by (simp add: take_update_swap)
  also have "\<dots> = butlast ((entries st)[i := last (entries st)])"
    unfolding last by (simp add: entries_def)
  finally show ?thesis .
qed

lemma mset_swap_remove:
  assumes "i < length es"
  shows "mset (butlast (es[i := last es])) = mset es - {#es ! i#}"
proof (cases es rule: rev_cases)
  case Nil
  with assms show ?thesis by simp
next
  case (snoc bs l)
  show ?thesis
  proof (cases "i < length bs")
    case True
    then show ?thesis
      using snoc by (simp add: list_update_append nth_append mset_update)
  next
    case False
    with assms snoc have "i = length bs" by simp
    then show ?thesis using snoc by simp
  qed
qed


lemma take_swap_remove:
  assumes "i < length es"
  shows "take i (butlast (es[i := last es])) = take i es"
proof -
  have "take i (butlast (es[i := last es])) = take i (es[i := last es])"
    using assms by (auto simp add: butlast_conv_take min_def)
  then show ?thesis by simp
qed

lemma mset_drop_swap_remove:
  assumes "i < length es"
  shows "mset (drop i (butlast (es[i := last es]))) = mset (drop (Suc i) es)"
proof (cases es rule: rev_cases)
  case Nil
  with assms show ?thesis by simp
next
  case (snoc bs l)
  show ?thesis
  proof (cases "i < length bs")
    case True
    then have "drop i (bs[i := l]) = l # drop (Suc i) bs"
      by (metis Cons_nth_drop_Suc drop_update_cancel length_list_update lessI nth_list_update_eq drop_Suc tl_drop)
    then show ?thesis
      using snoc True by (simp add: list_update_append)
  next
    case False
    with assms snoc have "i = length bs" by simp
    then show ?thesis using snoc by simp
  qed
qed

lemma nth_entries:
  "i < unat (numipfilters st) \<Longrightarrow> entries st ! i = ipfilters st ! i"
  by (simp add: entries_def)

lemma unat_succ: fixes i n :: "32 word" assumes "i < n" shows "unat (i + 1) = Suc (unat i)"
proof -
  have "unat i < unat n" using assms by (simp add: word_less_nat_alt)
  moreover have "unat n < 2 ^ 32" using unsigned_less [of n] by simp
  ultimately have "unat i + unat (1 :: 32 word) < 2 ^ LENGTH(32)" by simp
  then have "unat (i + 1) = unat i + unat (1 :: 32 word)" by (simp only: unat_add_lem)
  then show ?thesis by simp
qed

lemma CheckBans_loop_inv:
  "wf_state st \<Longrightarrow> unat i \<le> unat (numipfilters st) \<Longrightarrow>
     wf_state (CheckBans_loop now i st)
     \<and> length (ipfilters (CheckBans_loop now i st)) = length (ipfilters st)
     \<and> mset (entries (CheckBans_loop now i st)) =
         mset (take (unat i) (entries st))
         + filter_mset (\<lambda>e. \<not> expired now e) (mset (drop (unat i) (entries st)))"
proof (induction now i st rule: CheckBans_loop.induct)
  case (1 now i st)
  let ?n = "unat (numipfilters st)"
  let ?es = "entries st"
  have len: "length ?es = ?n" using "1.prems"(1) by (rule length_entries)
  show ?case
  proof (cases "i < numipfilters st")
    case False
    then have "unat i = ?n"
      using "1.prems"(2) by (simp add: word_less_nat_alt)
    then show ?thesis
      using False "1.prems"(1) len by (simp add: CheckBans_loop.simps [of now i st])
  next
    case lt: True
    then have il: "unat i < ?n" by (simp add: word_less_nat_alt)
    have nth: "ipfilters st ! unat i = ?es ! unat i"
      using il by (simp add: nth_entries)
    have split: "drop (unat i) ?es = ?es ! unat i # drop (Suc (unat i)) ?es"
      using il len by (simp add: Cons_nth_drop_Suc)
    show ?thesis
    proof (cases "expired now (ipfilters st ! unat i)")
      case ex: True
      let ?st' = "RemoveIP (unat i) st"
      have wf': "wf_state ?st'" using "1.prems"(1) il by (rule wf_RemoveIP)
      have n': "unat (numipfilters ?st') = ?n - 1"
        using il by (simp add: numipfilters_RemoveIP unat_pred)
      have le': "unat (i - 1 + 1) \<le> unat (numipfilters ?st')"
        using il n' by simp
      have es': "entries ?st' = butlast (?es[unat i := last ?es])"
        using "1.prems"(1) il by (rule entries_RemoveIP)
      note IH = "1.IH"(1) [OF lt ex wf' le']
      have step: "CheckBans_loop now i st = CheckBans_loop now (i - 1 + 1) ?st'"
        using lt ex by (simp add: CheckBans_loop.simps [of now i st])
      have t: "take (unat i) (entries ?st') = take (unat i) ?es"
        unfolding es' using il len by (simp add: take_swap_remove)
      have d: "mset (drop (unat i) (entries ?st')) = mset (drop (Suc (unat i)) ?es)"
        unfolding es' using il len by (simp add: mset_drop_swap_remove)
      have "filter_mset (\<lambda>e. \<not> expired now e) (mset (drop (unat i) ?es))
          = filter_mset (\<lambda>e. \<not> expired now e) (mset (drop (Suc (unat i)) ?es))"
        using ex nth by (simp add: split)
      with IH show ?thesis
        unfolding step by (simp add: t d length_RemoveIP)
    next
      case nex: False
      have su: "unat (i + 1) = Suc (unat i)" using lt by (rule unat_succ)
      have le': "unat (i + 1) \<le> ?n" using il su by simp
      note IH = "1.IH"(2) [OF lt nex "1.prems"(1) le']
      have step: "CheckBans_loop now i st = CheckBans_loop now (i + 1) st"
        using lt nex by (simp add: CheckBans_loop.simps [of now i st])
      have t: "take (Suc (unat i)) ?es = take (unat i) ?es @ [?es ! unat i]"
        using il len by (simp add: take_Suc_conv_app_nth)
      have "filter_mset (\<lambda>e. \<not> expired now e) (mset (drop (unat i) ?es))
          = add_mset (?es ! unat i) (filter_mset (\<lambda>e. \<not> expired now e) (mset (drop (Suc (unat i)) ?es)))"
        using nex nth by (simp add: split)
      with IH show ?thesis
        unfolding step by (simp add: su t)
    qed
  qed
qed

lemma mset_entries_TDM_CheckBans:
  assumes "wf_state st"
  shows "mset (entries (TDM_CheckBans t st)) =
     filter_mset (\<lambda>e. \<not> expired (word_of_int t) e) (mset (entries st))"
  using CheckBans_loop_inv [OF assms, of 0 "word_of_int t"]
  by (simp add: TDM_CheckBans_def)

lemma wf_TDM_CheckBans:
  assumes "wf_state st"
  shows "wf_state (TDM_CheckBans t st)"
    and "length (ipfilters (TDM_CheckBans t st)) = length (ipfilters st)"
  using CheckBans_loop_inv [OF assms, of 0 "word_of_int t"]
  by (simp_all add: TDM_CheckBans_def)


text \<open>
  C8. For a valid index \<open>i\<close> (below the count, so the count is at least one),
  \<^verbatim>\<open>RemoveIP\<close> decrements the count by one and leaves, in the slots below the new count,
  the old entries with the last one moved into slot \<open>i\<close>; as a multiset, the entries
  are the old ones without the entry that was at \<open>i\<close>.
\<close>

theorem RemoveIP_swap_removal:
  assumes "wf_state st" and "i < unat (numipfilters st)"
  shows "unat (numipfilters (RemoveIP i st)) = unat (numipfilters st) - 1
    \<and> entries (RemoveIP i st) = butlast ((entries st)[i := last (entries st)])
    \<and> mset (entries (RemoveIP i st)) = mset (entries st) - {#entries st ! i#}"
proof -
  have len: "i < length (entries st)"
    using assms by (simp add: length_entries)
  have "unat (numipfilters (RemoveIP i st)) = unat (numipfilters st) - 1"
    using assms(2) by (simp add: numipfilters_RemoveIP unat_pred)
  moreover have e: "entries (RemoveIP i st) = butlast ((entries st)[i := last (entries st)])"
    using assms by (rule entries_RemoveIP)
  moreover have "mset (entries (RemoveIP i st)) = mset (entries st) - {#entries st ! i#}"
    unfolding e using len by (rule mset_swap_remove)
  ultimately show ?thesis by simp
qed

theorem RemoveIP_swap_removal_witness:
  "wf_state (ex_store 4 [ex_entry 1 50, ex_entry 2 (- 1), ex_entry 3 60])
   \<and> 0 < unat (numipfilters (ex_store 4 [ex_entry 1 50, ex_entry 2 (- 1), ex_entry 3 60]))
   \<and> unat (numipfilters (RemoveIP 0 (ex_store 4 [ex_entry 1 50, ex_entry 2 (- 1), ex_entry 3 60]))) = 2
   \<and> entries (RemoveIP 0 (ex_store 4 [ex_entry 1 50, ex_entry 2 (- 1), ex_entry 3 60]))
       = [ex_entry 3 60, ex_entry 2 (- 1)]
   \<and> mset (entries (RemoveIP 0 (ex_store 4 [ex_entry 1 50, ex_entry 2 (- 1), ex_entry 3 60])))
       = {#ex_entry 2 (- 1), ex_entry 3 60#}"
proof -
  let ?st = "ex_store 4 [ex_entry 1 50, ex_entry 2 (- 1), ex_entry 3 60]"
  have h1: "wf_state ?st"
    by (simp add: wf_state_def ex_store_def)
  have h2: "0 < unat (numipfilters ?st)"
    by (simp add: ex_store_def)
  have es: "entries ?st = [ex_entry 1 50, ex_entry 2 (- 1), ex_entry 3 60]"
    by (simp add: entries_def ex_store_def)
  have n: "unat (numipfilters ?st) = 3"
    by (simp add: ex_store_def)
  show ?thesis
    using RemoveIP_swap_removal [OF h1 h2] h1 h2 by (simp add: es n)
qed

subsection \<open>The expiry sweep\<close>

lemma permanent_not_expired: "permanent e \<Longrightarrow> \<not> expired now e"
  by (simp add: permanent_def expired_def not_less)

text \<open>
  C4. One call of \<^verbatim>\<open>TDM_CheckBans\<close> at clock reading \<open>t\<close> keeps, as a multiset,
  exactly the entries that fail the test of the loop, \<^verbatim>\<open>expire && expire < now\<close>: every
  entry whose expiry is set (the field is not 0) and lies before \<open>now\<close> is gone and no
  other entry is. An entry with the permanent sentinel never passes the test, so the
  entries removed are the same when the test also asks for a non-permanent entry.
  When the entry at the current index is removed, the loop goes on at the same index,
  on the store in which the last entry has been moved there.
\<close>

theorem TDM_CheckBans_removes_exactly_expired:
  assumes "wf_state st"
  shows "mset (entries (TDM_CheckBans t st))
      = filter_mset (\<lambda>e. \<not> (expire e \<noteq> 0 \<and> expire e < word_of_int t)) (mset (entries st))
    \<and> mset (entries (TDM_CheckBans t st))
      = filter_mset (\<lambda>e. \<not> (expire e \<noteq> 0 \<and> \<not> permanent e \<and> expire e < word_of_int t))
          (mset (entries st))
    \<and> (\<forall>now i. i < numipfilters st \<and> expired now (ipfilters st ! unat i)
          \<longrightarrow> CheckBans_loop now i st = CheckBans_loop now i (RemoveIP (unat i) st))"
proof -
  have np: "(expire e \<noteq> 0 \<and> \<not> permanent e \<and> expire e < word_of_int t)
      \<longleftrightarrow> (expire e \<noteq> 0 \<and> expire e < word_of_int t)" for e
    using permanent_not_expired [of e "word_of_int t"] by (auto simp add: expired_def)
  have "mset (entries (TDM_CheckBans t st))
      = filter_mset (\<lambda>e. \<not> expired (word_of_int t) e) (mset (entries st))"
    using assms by (rule mset_entries_TDM_CheckBans)
  then have "mset (entries (TDM_CheckBans t st))
      = filter_mset (\<lambda>e. \<not> (expire e \<noteq> 0 \<and> expire e < word_of_int t)) (mset (entries st))"
    by (simp add: expired_def)
  moreover have "CheckBans_loop now i st = CheckBans_loop now i (RemoveIP (unat i) st)"
    if "i < numipfilters st \<and> expired now (ipfilters st ! unat i)" for now i
    using that by (simp add: CheckBans_loop.simps [of now i st])
  ultimately show ?thesis by (simp only: np) blast
qed

theorem TDM_CheckBans_removes_exactly_expired_witness:
  "wf_state (ex_store 4 [ex_entry 1 50, ex_entry 2 (- 1), ex_entry 3 60])
   \<and> entries (TDM_CheckBans 70 (ex_store 4 [ex_entry 1 50, ex_entry 2 (- 1), ex_entry 3 60]))
       = [ex_entry 2 (- 1)]
   \<and> mset (entries (TDM_CheckBans 70 (ex_store 4 [ex_entry 1 50, ex_entry 2 (- 1), ex_entry 3 60])))
       = filter_mset (\<lambda>e. \<not> (expire e \<noteq> 0 \<and> expire e < word_of_int 70))
           (mset (entries (ex_store 4 [ex_entry 1 50, ex_entry 2 (- 1), ex_entry 3 60])))
   \<and> CheckBans_loop 70 0 (ex_store 4 [ex_entry 1 50, ex_entry 2 (- 1), ex_entry 3 60])
       = CheckBans_loop 70 0 (RemoveIP 0 (ex_store 4 [ex_entry 1 50, ex_entry 2 (- 1), ex_entry 3 60]))"
proof -
  let ?st = "ex_store 4 [ex_entry 1 50, ex_entry 2 (- 1), ex_entry 3 60]"
  have h: "wf_state ?st"
    by (simp add: wf_state_def ex_store_def)
  have v: "entries (TDM_CheckBans 70 ?st) = [ex_entry 2 (- 1)]"
    by (simp add: TDM_CheckBans_def CheckBans_loop.simps ex_store_def entries_def RemoveIP_def expired_def ex_entry_def)
  have c: "0 < numipfilters ?st \<and> expired 70 (ipfilters ?st ! unat (0 :: 32 word))"
    by (simp add: ex_store_def expired_def ex_entry_def)
  note inst = TDM_CheckBans_removes_exactly_expired [OF h, of 70]
  have a: "mset (entries (TDM_CheckBans 70 ?st))
       = filter_mset (\<lambda>e. \<not> (expire e \<noteq> 0 \<and> expire e < word_of_int 70)) (mset (entries ?st))"
    using inst by (rule conjunct1)
  have "CheckBans_loop 70 0 ?st = CheckBans_loop 70 0 (RemoveIP (unat (0 :: 32 word)) ?st)"
    using inst [THEN conjunct2, THEN conjunct2, rule_format, OF c] .
  then have b: "CheckBans_loop 70 0 ?st = CheckBans_loop 70 0 (RemoveIP 0 ?st)"
    by (simp only: unsigned_0)
  show ?thesis
    using h v a b by (intro conjI)
qed

subsection \<open>The connection check\<close>

lemma FilterPacket_loop_eq:
  "FilterPacket_loop c fb a i st =
     (if \<exists>j. i \<le> j \<and> j < unat (numipfilters st) \<and> c (addr (ipfilters st ! j)) a
      then fb else (if fb = 0 then 1 else 0))"
proof (induction c fb a i st rule: FilterPacket_loop.induct)
  case (1 c fb a i st)
  show ?case
  proof (cases "i < unat (numipfilters st)")
    case False
    then show ?thesis
      by (auto simp add: FilterPacket_loop.simps [of c fb a i st])
  next
    case lt: True
    show ?thesis
    proof (cases "c (addr (ipfilters st ! i)) a")
      case True
      with lt have "\<exists>j. i \<le> j \<and> j < unat (numipfilters st) \<and> c (addr (ipfilters st ! j)) a"
        by blast
      then show ?thesis
        using lt True by (simp add: FilterPacket_loop.simps [of c fb a i st])
    next
      case False
      have "(\<exists>j. i \<le> j \<and> j < unat (numipfilters st) \<and> c (addr (ipfilters st ! j)) a)
          \<longleftrightarrow> (\<exists>j. i + 1 \<le> j \<and> j < unat (numipfilters st) \<and> c (addr (ipfilters st ! j)) a)"
        using False by (metis Suc_eq_plus1 Suc_leI le_neq_implies_less Suc_leD)
      then show ?thesis
        using lt False "1.IH" [OF lt False]
        by (simp add: FilterPacket_loop.simps [of c fb a i st])
    qed
  qed
qed

lemma ex_slot_iff_ex_entry:
  assumes "wf_state st"
  shows "(\<exists>j. j < unat (numipfilters st) \<and> P (ipfilters st ! j)) \<longleftrightarrow> (\<exists>e\<in>set (entries st). P e)"
proof -
  have len: "length (entries st) = unat (numipfilters st)"
    using assms by (rule length_entries)
  show ?thesis
  proof
    assume "\<exists>j. j < unat (numipfilters st) \<and> P (ipfilters st ! j)"
    then obtain j where j: "j < unat (numipfilters st)" "P (ipfilters st ! j)"
      by blast
    then have "entries st ! j \<in> set (entries st)" "P (entries st ! j)"
      using len nth_mem [of j "entries st"] by (simp_all only: nth_entries)
    then show "\<exists>e\<in>set (entries st). P e"
      by blast
  next
    assume "\<exists>e\<in>set (entries st). P e"
    then obtain j where "j < length (entries st)" "P (entries st ! j)"
      by (auto simp add: in_set_conv_nth)
    then have "j < unat (numipfilters st) \<and> P (ipfilters st ! j)"
      using len by (simp add: nth_entries)
    then show "\<exists>j. j < unat (numipfilters st) \<and> P (ipfilters st ! j)"
      by blast
  qed
qed

lemma FilterPacket_loop_entries:
  assumes "wf_state st"
  shows "FilterPacket_loop c fb a 0 st =
     (if \<exists>e\<in>set (entries st). c (addr e) a then fb else (if fb = 0 then 1 else 0))"
  unfolding FilterPacket_loop_eq
  using ex_slot_iff_ex_entry [OF assms, of "\<lambda>e. c (addr e) a"] by simp

lemma SV_FilterPacket_eq:
  assumes "wf_state st"
  shows "SV_FilterPacket c fb t a st =
     ((if \<exists>e\<in>set (entries (TDM_CheckBans t st)). c (addr e) a then fb
       else (if fb = 0 then 1 else 0)), TDM_CheckBans t st)"
  using FilterPacket_loop_entries [OF wf_TDM_CheckBans(1) [OF assms]]
  by (simp add: SV_FilterPacket_def Let_def)

lemma set_entries_TDM_CheckBans:
  assumes "wf_state st"
  shows "set (entries (TDM_CheckBans t st)) = {e \<in> set (entries st). \<not> expired (word_of_int t) e}"
proof -
  have "set (entries (TDM_CheckBans t st)) = set_mset (mset (entries (TDM_CheckBans t st)))"
    by simp
  also have "\<dots> = {e \<in> set (entries st). \<not> expired (word_of_int t) e}"
    unfolding mset_entries_TDM_CheckBans [OF assms] by simp
  finally show ?thesis .
qed

text \<open>
  C5. \<^verbatim>\<open>SV_FilterPacket\<close> first sweeps: the store it leaves is the one
  \<^verbatim>\<open>TDM_CheckBans\<close> leaves, whose entries are those of the old store that fail the
  sweep's test. The connection is permitted when the function returns 0 (a result that
  is not zero tells the caller to filter the packet out). It returns 0 exactly when
  either \<^verbatim>\<open>filterban\<close> is set (deny-mode) and no remaining entry contains the address,
  or \<^verbatim>\<open>filterban\<close> is zero (allow-mode) and some remaining entry contains it.
\<close>

theorem SV_FilterPacket_permit_decision:
  assumes "wf_state st"
  shows "snd (SV_FilterPacket net_contains filterban t a st) = TDM_CheckBans t st
    \<and> set (entries (TDM_CheckBans t st))
        = {e \<in> set (entries st). \<not> (expire e \<noteq> 0 \<and> expire e < word_of_int t)}
    \<and> (fst (SV_FilterPacket net_contains filterban t a st) = 0 \<longleftrightarrow>
          (filterban \<noteq> 0 \<and> \<not> (\<exists>e\<in>set (entries (TDM_CheckBans t st)). net_contains (addr e) a))
        \<or> (filterban = 0 \<and> (\<exists>e\<in>set (entries (TDM_CheckBans t st)). net_contains (addr e) a)))"
proof -
  have "set (entries (TDM_CheckBans t st))
        = {e \<in> set (entries st). \<not> (expire e \<noteq> 0 \<and> expire e < word_of_int t)}"
    using set_entries_TDM_CheckBans [OF assms, of t] by (simp add: expired_def)
  then show ?thesis
    unfolding SV_FilterPacket_eq [OF assms] by auto
qed

theorem SV_FilterPacket_permit_decision_witness:
  "wf_state (ex_store 4 [ex_entry 1 (- 1), ex_entry 9 50])
   \<and> snd (SV_FilterPacket (\<lambda>m a. bytes m = bytes a) 1 70 (ex_addr 9)
            (ex_store 4 [ex_entry 1 (- 1), ex_entry 9 50]))
       = TDM_CheckBans 70 (ex_store 4 [ex_entry 1 (- 1), ex_entry 9 50])
   \<and> entries (TDM_CheckBans 70 (ex_store 4 [ex_entry 1 (- 1), ex_entry 9 50])) = [ex_entry 1 (- 1)]
   \<and> fst (SV_FilterPacket (\<lambda>m a. bytes m = bytes a) 1 70 (ex_addr 9)
            (ex_store 4 [ex_entry 1 (- 1), ex_entry 9 50])) = 0
   \<and> fst (SV_FilterPacket (\<lambda>m a. bytes m = bytes a) 1 70 (ex_addr 1)
            (ex_store 4 [ex_entry 1 (- 1), ex_entry 9 50])) \<noteq> 0
   \<and> fst (SV_FilterPacket (\<lambda>m a. bytes m = bytes a) 0 70 (ex_addr 1)
            (ex_store 4 [ex_entry 1 (- 1), ex_entry 9 50])) = 0
   \<and> fst (SV_FilterPacket (\<lambda>m a. bytes m = bytes a) 0 70 (ex_addr 9)
            (ex_store 4 [ex_entry 1 (- 1), ex_entry 9 50])) \<noteq> 0"
proof -
  let ?st = "ex_store 4 [ex_entry 1 (- 1), ex_entry 9 50]"
  let ?c = "\<lambda>m a. bytes m = bytes a"
  have h: "wf_state ?st"
    by (simp add: wf_state_def ex_store_def)
  have v: "entries (TDM_CheckBans 70 ?st) = [ex_entry 1 (- 1)]"
    by (simp add: TDM_CheckBans_def CheckBans_loop.simps ex_store_def entries_def RemoveIP_def expired_def ex_entry_def)
  have b: "bytes (addr (ex_entry 1 (- 1))) \<noteq> bytes (ex_addr 9)"
      "bytes (addr (ex_entry 1 (- 1))) = bytes (ex_addr 1)"
    by (simp_all add: ex_entry_def ex_addr_def)
  have r1: "fst (SV_FilterPacket ?c 1 70 (ex_addr 9) ?st) = 0"
    using SV_FilterPacket_permit_decision [OF h, of ?c 1 70 "ex_addr 9", THEN conjunct2, THEN conjunct2] b by (simp add: v)
  have r2: "fst (SV_FilterPacket ?c 1 70 (ex_addr 1) ?st) \<noteq> 0"
    using SV_FilterPacket_permit_decision [OF h, of ?c 1 70 "ex_addr 1", THEN conjunct2, THEN conjunct2] b by (simp add: v)
  have r3: "fst (SV_FilterPacket ?c 0 70 (ex_addr 1) ?st) = 0"
    using SV_FilterPacket_permit_decision [OF h, of ?c 0 70 "ex_addr 1", THEN conjunct2, THEN conjunct2] b by (simp add: v)
  have r4: "fst (SV_FilterPacket ?c 0 70 (ex_addr 9) ?st) \<noteq> 0"
    using SV_FilterPacket_permit_decision [OF h, of ?c 0 70 "ex_addr 9", THEN conjunct2, THEN conjunct2] b by (simp add: v)
  have s: "snd (SV_FilterPacket ?c 1 70 (ex_addr 9) ?st) = TDM_CheckBans 70 ?st"
    using SV_FilterPacket_permit_decision [OF h, of ?c 1 70 "ex_addr 9"] by (rule conjunct1)
  show ?thesis
    using h s v r1 r2 r3 r4 by (intro conjI)
qed

text \<open>
  C10. Two stores holding the same entries in any order give \<^verbatim>\<open>SV_FilterPacket\<close> the
  same result: the result is \<^verbatim>\<open>filterban\<close> when some remaining entry contains the
  address, whichever it is, and \<^verbatim>\<open>!filterban\<close> when none does.
\<close>

theorem SV_FilterPacket_order_independent:
  assumes "wf_state st" and "wf_state st'" and "mset (entries st) = mset (entries st')"
  shows "fst (SV_FilterPacket net_contains filterban t a st)
       = fst (SV_FilterPacket net_contains filterban t a st')
    \<and> fst (SV_FilterPacket net_contains filterban t a st)
       = (if \<exists>e\<in>set (entries (TDM_CheckBans t st)). net_contains (addr e) a
          then filterban else (if filterban = 0 then 1 else 0))"
proof -
  have "set (entries st) = set (entries st')"
    using assms(3) by (rule mset_eq_setD)
  then have "set (entries (TDM_CheckBans t st)) = set (entries (TDM_CheckBans t st'))"
    by (simp add: set_entries_TDM_CheckBans assms(1,2))
  then show ?thesis
    by (simp add: SV_FilterPacket_eq assms(1,2))
qed

theorem SV_FilterPacket_order_independent_witness:
  "wf_state (ex_store 4 [ex_entry 1 (- 1), ex_entry 9 50, ex_entry 1 90])
   \<and> wf_state (ex_store 4 [ex_entry 1 90, ex_entry 1 (- 1), ex_entry 9 50])
   \<and> mset (entries (ex_store 4 [ex_entry 1 (- 1), ex_entry 9 50, ex_entry 1 90]))
       = mset (entries (ex_store 4 [ex_entry 1 90, ex_entry 1 (- 1), ex_entry 9 50]))
   \<and> fst (SV_FilterPacket (\<lambda>m a. bytes m = bytes a) 1 70 (ex_addr 1)
            (ex_store 4 [ex_entry 1 (- 1), ex_entry 9 50, ex_entry 1 90]))
       = fst (SV_FilterPacket (\<lambda>m a. bytes m = bytes a) 1 70 (ex_addr 1)
            (ex_store 4 [ex_entry 1 90, ex_entry 1 (- 1), ex_entry 9 50]))
   \<and> fst (SV_FilterPacket (\<lambda>m a. bytes m = bytes a) 1 70 (ex_addr 1)
            (ex_store 4 [ex_entry 1 (- 1), ex_entry 9 50, ex_entry 1 90])) = 1"
proof -
  let ?st = "ex_store 4 [ex_entry 1 (- 1), ex_entry 9 50, ex_entry 1 90]"
  let ?st' = "ex_store 4 [ex_entry 1 90, ex_entry 1 (- 1), ex_entry 9 50]"
  let ?c = "\<lambda>m a. bytes m = bytes a"
  have h1: "wf_state ?st" and h2: "wf_state ?st'"
    by (simp_all add: wf_state_def ex_store_def)
  have h3: "mset (entries ?st) = mset (entries ?st')"
    by (simp add: entries_def ex_store_def)
  have v: "entries (TDM_CheckBans 70 ?st) = [ex_entry 1 (- 1), ex_entry 1 90]"
    by (simp add: TDM_CheckBans_def CheckBans_loop.simps ex_store_def entries_def RemoveIP_def expired_def ex_entry_def)
  note inst = SV_FilterPacket_order_independent [OF h1 h2 h3, of ?c 1 70 "ex_addr 1"]
  have r1: "fst (SV_FilterPacket ?c 1 70 (ex_addr 1) ?st)
      = fst (SV_FilterPacket ?c 1 70 (ex_addr 1) ?st')"
    using inst by (rule conjunct1)
  have ad: "addr (ex_entry d e) = ex_addr d" for d e
    by (simp add: ex_entry_def)
  have r2: "fst (SV_FilterPacket ?c 1 70 (ex_addr 1) ?st) = 1"
    using inst [THEN conjunct2] by (simp add: v ad)
  show ?thesis
    using h1 h2 h3 r1 r2 by (intro conjI)
qed



subsection \<open>Adding an entry\<close>

lemma StringToFilter_ok: "fst (StringToFilter parse t s seconds) = True"
  by (simp add: StringToFilter_def Let_def)

lemma StringToFilter_zero:
  "StringToFilter parse t s 0 = (True, \<lparr>addr = parse s, expire = - 1\<rparr>)"
  by (simp add: StringToFilter_def)

lemma SVCmd_AddIP_f_insert:
  assumes "ip \<noteq> []" and "numipfilters (TDM_CheckBans t st) \<noteq> MAX_IPFILTERS"
  shows "SVCmd_AddIP_f parse MAX_IPFILTERS t ip expiry st =
     (Added, (TDM_CheckBans t st)
        \<lparr>ipfilters := (ipfilters (TDM_CheckBans t st))
           [unat (numipfilters (TDM_CheckBans t st)) := snd (StringToFilter parse t ip (expiry * 60))],
         numipfilters := numipfilters (TDM_CheckBans t st) + 1\<rparr>)"
  using assms by (simp add: SVCmd_AddIP_f_def Let_def StringToFilter_def)

lemma entries_append_slot:
  assumes "wf_state st" and "length (ipfilters st) = unat cap" and "numipfilters st \<noteq> cap"
  shows "wf_state (st\<lparr>ipfilters := (ipfilters st)[unat (numipfilters st) := e],
                     numipfilters := numipfilters st + 1\<rparr>)"
    and "entries (st\<lparr>ipfilters := (ipfilters st)[unat (numipfilters st) := e],
                     numipfilters := numipfilters st + 1\<rparr>) = entries st @ [e]"
proof -
  have le: "unat (numipfilters st) \<le> unat cap"
    using assms(1,2) by (simp add: wf_state_def)
  then have lt: "numipfilters st < cap"
    using assms(3) by (simp add: word_less_nat_alt word_unat_eq_iff)
  then have su: "unat (numipfilters st + 1) = Suc (unat (numipfilters st))"
    by (rule unat_succ)
  have il: "unat (numipfilters st) < length (ipfilters st)"
    using lt assms(2) by (simp add: word_less_nat_alt)
  show "wf_state (st\<lparr>ipfilters := (ipfilters st)[unat (numipfilters st) := e],
                     numipfilters := numipfilters st + 1\<rparr>)"
    using il by (simp add: wf_state_def su)
  show "entries (st\<lparr>ipfilters := (ipfilters st)[unat (numipfilters st) := e],
                     numipfilters := numipfilters st + 1\<rparr>) = entries st @ [e]"
    using il by (simp add: entries_def su take_Suc_conv_app_nth)
qed

lemma mset_permanent_TDM_CheckBans:
  assumes "wf_state st"
  shows "filter_mset permanent (mset (entries (TDM_CheckBans t st)))
       = filter_mset permanent (mset (entries st))"
  unfolding mset_entries_TDM_CheckBans [OF assms] filter_filter_mset
  by (rule filter_mset_cong) (auto simp add: permanent_not_expired)

lemma sweeps_keep_permanent:
  "wf_state st \<Longrightarrow>
     wf_state (sweeps ts st)
     \<and> filter_mset permanent (mset (entries (sweeps ts st)))
       = filter_mset permanent (mset (entries st))"
proof (induction ts arbitrary: st)
  case Nil
  then show ?case by simp
next
  case (Cons t ts)
  have "wf_state (TDM_CheckBans t st)"
    using Cons.prems by (rule wf_TDM_CheckBans)
  from Cons.IH [OF this] show ?case
    by (simp add: mset_permanent_TDM_CheckBans [OF Cons.prems])
qed

text \<open>
  C2. With a duration of zero \<^verbatim>\<open>StringToFilter\<close> stores the sentinel \<^verbatim>\<open>-1\<close>, whatever
  the text and the clock. When \<^verbatim>\<open>SVCmd_AddIP_f\<close> is given a text that is not empty and
  the swept store is not full, it appends the entry with that sentinel: the entry is
  permanent, it passes the expiry test at no clock reading, and it is still in the
  store after any sequence of later sweeps.
\<close>

theorem AddIP_zero_duration_is_permanent:
  assumes "wf_state st" and "length (ipfilters st) = unat MAX_IPFILTERS" and "ip \<noteq> []"
    and "numipfilters (TDM_CheckBans t st) \<noteq> MAX_IPFILTERS"
  shows "(\<forall>s t'. snd (StringToFilter parse t' s 0) = \<lparr>addr = parse s, expire = - 1\<rparr>)
    \<and> fst (SVCmd_AddIP_f parse MAX_IPFILTERS t ip 0 st) = Added
    \<and> entries (snd (SVCmd_AddIP_f parse MAX_IPFILTERS t ip 0 st))
        = entries (TDM_CheckBans t st) @ [\<lparr>addr = parse ip, expire = - 1\<rparr>]
    \<and> permanent \<lparr>addr = parse ip, expire = - 1\<rparr>
    \<and> (\<forall>now. \<not> expired now \<lparr>addr = parse ip, expire = - 1\<rparr>)
    \<and> (\<forall>ts. \<lparr>addr = parse ip, expire = - 1\<rparr>
          \<in> set (entries (sweeps ts (snd (SVCmd_AddIP_f parse MAX_IPFILTERS t ip 0 st)))))"
proof -
  let ?st1 = "TDM_CheckBans t st"
  let ?e = "\<lparr>addr = parse ip, expire = - 1\<rparr>"
  let ?st2 = "?st1\<lparr>ipfilters := (ipfilters ?st1)[unat (numipfilters ?st1) := ?e],
                     numipfilters := numipfilters ?st1 + 1\<rparr>"
  have wf1: "wf_state ?st1" and len1: "length (ipfilters ?st1) = unat MAX_IPFILTERS"
    using assms(1,2) by (simp_all add: wf_TDM_CheckBans)
  have add: "SVCmd_AddIP_f parse MAX_IPFILTERS t ip 0 st = (Added, ?st2)"
    using SVCmd_AddIP_f_insert [OF assms(3,4), of parse 0] by (simp add: StringToFilter_zero)
  have wf2: "wf_state ?st2" and es2: "entries ?st2 = entries ?st1 @ [?e]"
    using wf1 len1 assms(4) by (rule entries_append_slot)+
  have perm: "permanent ?e"
    by (simp add: permanent_def)
  have "?e \<in> set (entries (sweeps ts ?st2))" for ts
  proof -
    have "?e \<in># filter_mset permanent (mset (entries ?st2))"
      using perm by (simp add: es2)
    then have "?e \<in># filter_mset permanent (mset (entries (sweeps ts ?st2)))"
      using sweeps_keep_permanent [OF wf2, of ts] by simp
    then show ?thesis by simp
  qed
  then show ?thesis
    using perm by (simp add: add es2 StringToFilter_zero permanent_not_expired)
qed


theorem AddIP_zero_duration_is_permanent_witness:
  "wf_state (ex_store 4 [ex_entry 1 50])
   \<and> length (ipfilters (ex_store 4 [ex_entry 1 50])) = unat (4 :: 32 word)
   \<and> ''192.0.2.7'' \<noteq> []
   \<and> numipfilters (TDM_CheckBans 70 (ex_store 4 [ex_entry 1 50])) \<noteq> 4
   \<and> fst (SVCmd_AddIP_f (\<lambda>s. ex_addr 7) 4 70 ''192.0.2.7'' 0 (ex_store 4 [ex_entry 1 50])) = Added
   \<and> entries (snd (SVCmd_AddIP_f (\<lambda>s. ex_addr 7) 4 70 ''192.0.2.7'' 0 (ex_store 4 [ex_entry 1 50])))
       = [ex_entry 7 (- 1)]
   \<and> ex_entry 7 (- 1)
       \<in> set (entries (sweeps [100, 4294967295, 4294967296 + 5]
            (snd (SVCmd_AddIP_f (\<lambda>s. ex_addr 7) 4 70 ''192.0.2.7'' 0 (ex_store 4 [ex_entry 1 50])))))"
proof -
  let ?st = "ex_store 4 [ex_entry 1 50]"
  let ?p = "\<lambda>s :: string. ex_addr 7"
  have h1: "wf_state ?st"
    by (simp add: wf_state_def ex_store_def)
  have h2: "length (ipfilters ?st) = unat (4 :: 32 word)"
    by (simp add: ex_store_def)
  have h3: "''192.0.2.7'' \<noteq> []"
    by simp
  have v: "entries (TDM_CheckBans 70 ?st) = []"
    by (simp add: TDM_CheckBans_def CheckBans_loop.simps ex_store_def entries_def RemoveIP_def expired_def ex_entry_def)
  have h4: "numipfilters (TDM_CheckBans 70 ?st) \<noteq> 4"
    by (simp add: TDM_CheckBans_def CheckBans_loop.simps ex_store_def RemoveIP_def expired_def ex_entry_def)
  have e: "\<lparr>addr = ex_addr 7, expire = - 1\<rparr> = ex_entry 7 (- 1)"
    by (simp add: ex_entry_def)
  note inst = AddIP_zero_duration_is_permanent [OF h1 h2 h3 h4, of ?p]
  have r1: "fst (SVCmd_AddIP_f ?p 4 70 ''192.0.2.7'' 0 ?st) = Added"
    using inst by blast
  have r2: "entries (snd (SVCmd_AddIP_f ?p 4 70 ''192.0.2.7'' 0 ?st)) = [ex_entry 7 (- 1)]"
    using inst by (simp add: v e)
  have r3: "ex_entry 7 (- 1) \<in> set (entries (sweeps [100, 4294967295, 4294967296 + 5]
            (snd (SVCmd_AddIP_f ?p 4 70 ''192.0.2.7'' 0 ?st))))"
    using inst unfolding e by blast
  show ?thesis
    using h1 h2 h3 h4 r1 r2 r3 by (intro conjI)
qed

lemma filter_mset_all_of_size:
  assumes "size (filter_mset P M) = size M"
  shows "\<forall>x\<in>#M. P x"
proof -
  have "size M = size (filter_mset P M) + size (filter_mset (\<lambda>x. \<not> P x) M)"
    by (metis multiset_partition size_union)
  then have "filter_mset (\<lambda>x. \<not> P x) M = {#}"
    using assms by simp
  then show ?thesis
    by (simp add: filter_mset_eq_mempty_iff)
qed

lemma CheckBans_loop_noop:
  "\<forall>j. unat i \<le> j \<and> j < unat (numipfilters st) \<longrightarrow> \<not> expired now (ipfilters st ! j)
     \<Longrightarrow> CheckBans_loop now i st = st"
proof (induction now i st rule: CheckBans_loop.induct)
  case (1 now i st)
  show ?case
  proof (cases "i < numipfilters st")
    case False
    then show ?thesis by (simp add: CheckBans_loop.simps [of now i st])
  next
    case lt: True
    then have il: "unat i < unat (numipfilters st)"
      by (simp add: word_less_nat_alt)
    then have nex: "\<not> expired now (ipfilters st ! unat i)"
      using "1.prems" by simp
    have su: "unat (i + 1) = Suc (unat i)" using lt by (rule unat_succ)
    have "CheckBans_loop now (i + 1) st = st"
      using "1.IH"(2) [OF lt nex] "1.prems" by (simp add: su)
    then show ?thesis
      using lt nex by (simp add: CheckBans_loop.simps [of now i st])
  qed
qed

lemma TDM_CheckBans_noop:
  assumes "wf_state st" and "\<forall>e\<in>set (entries st). \<not> expired (word_of_int t) e"
  shows "TDM_CheckBans t st = st"
proof -
  have "\<not> expired (word_of_int t) (ipfilters st ! j)" if "j < unat (numipfilters st)" for j
  proof -
    have "entries st ! j \<in> set (entries st)"
      using that length_entries [OF assms(1)] by simp
    then show ?thesis
      using assms(2) that by (simp add: nth_entries)
  qed
  then show ?thesis
    unfolding TDM_CheckBans_def by (intro CheckBans_loop_noop) simp
qed

lemma TDM_CheckBans_same_count:
  assumes "wf_state st" and "numipfilters (TDM_CheckBans t st) = numipfilters st"
  shows "TDM_CheckBans t st = st"
proof -
  have "size (mset (entries (TDM_CheckBans t st))) = size (mset (entries st))"
    using assms wf_TDM_CheckBans(1) [OF assms(1), of t] by (simp add: length_entries)
  then have "\<forall>e\<in>#mset (entries st). \<not> expired (word_of_int t) e"
    unfolding mset_entries_TDM_CheckBans [OF assms(1)] by (rule filter_mset_all_of_size)
  then show ?thesis
    using assms(1) by (intro TDM_CheckBans_noop) simp_all
qed

lemma numipfilters_TDM_CheckBans_le:
  assumes "wf_state st"
  shows "unat (numipfilters (TDM_CheckBans t st)) \<le> unat (numipfilters st)"
proof -
  have "size (mset (entries (TDM_CheckBans t st))) \<le> size (mset (entries st))"
    unfolding mset_entries_TDM_CheckBans [OF assms] by (rule size_filter_mset_lesseq)
  then show ?thesis
    using assms wf_TDM_CheckBans(1) [OF assms, of t] by (simp add: length_entries)
qed

text \<open>
  C6. When the count after the sweep equals \<^verbatim>\<open>MAX_IPFILTERS\<close>, the size of the array,
  \<^verbatim>\<open>SVCmd_AddIP_f\<close> ends with the message that the list is full and inserts nothing.
  The sweep itself removed nothing then (the array was already full), so the store is
  the one the command started with: same count, same entries.
\<close>

theorem AddIP_full:
  assumes "wf_state st" and "length (ipfilters st) = unat MAX_IPFILTERS" and "ip \<noteq> []"
    and "numipfilters (TDM_CheckBans t st) = MAX_IPFILTERS"
  shows "SVCmd_AddIP_f parse MAX_IPFILTERS t ip expiry st = (Full, TDM_CheckBans t st)
    \<and> TDM_CheckBans t st = st
    \<and> numipfilters (snd (SVCmd_AddIP_f parse MAX_IPFILTERS t ip expiry st)) = numipfilters st
    \<and> entries (snd (SVCmd_AddIP_f parse MAX_IPFILTERS t ip expiry st)) = entries st"
proof -
  have r: "SVCmd_AddIP_f parse MAX_IPFILTERS t ip expiry st = (Full, TDM_CheckBans t st)"
    using assms(3,4) by (simp add: SVCmd_AddIP_f_def Let_def)
  have "unat (numipfilters (TDM_CheckBans t st)) \<le> unat (numipfilters st)"
    using assms(1) by (rule numipfilters_TDM_CheckBans_le)
  moreover have "unat (numipfilters st) \<le> unat MAX_IPFILTERS"
    using assms(1,2) by (simp add: wf_state_def)
  ultimately have "numipfilters (TDM_CheckBans t st) = numipfilters st"
    using assms(4) by (simp add: word_unat_eq_iff)
  with assms(1) have "TDM_CheckBans t st = st"
    by (rule TDM_CheckBans_same_count)
  then show ?thesis
    using r by simp
qed

theorem AddIP_full_witness:
  "wf_state (ex_store 2 [ex_entry 1 (- 1), ex_entry 2 90])
   \<and> length (ipfilters (ex_store 2 [ex_entry 1 (- 1), ex_entry 2 90])) = unat (2 :: 32 word)
   \<and> ''192.0.2.7'' \<noteq> []
   \<and> numipfilters (TDM_CheckBans 70 (ex_store 2 [ex_entry 1 (- 1), ex_entry 2 90])) = 2
   \<and> SVCmd_AddIP_f (\<lambda>s. ex_addr 7) 2 70 ''192.0.2.7'' 5 (ex_store 2 [ex_entry 1 (- 1), ex_entry 2 90])
       = (Full, ex_store 2 [ex_entry 1 (- 1), ex_entry 2 90])"
proof -
  let ?st = "ex_store 2 [ex_entry 1 (- 1), ex_entry 2 90]"
  let ?p = "\<lambda>s :: string. ex_addr 7"
  have h1: "wf_state ?st"
    by (simp add: wf_state_def ex_store_def)
  have h2: "length (ipfilters ?st) = unat (2 :: 32 word)"
    by (simp add: ex_store_def)
  have h3: "''192.0.2.7'' \<noteq> []"
    by simp
  have h4: "numipfilters (TDM_CheckBans 70 ?st) = 2"
    by (simp add: TDM_CheckBans_def CheckBans_loop.simps ex_store_def RemoveIP_def expired_def ex_entry_def)
  have r: "SVCmd_AddIP_f ?p 2 70 ''192.0.2.7'' 5 ?st = (Full, ?st)"
    using AddIP_full [OF h1 h2 h3 h4, of ?p 5] by simp
  show ?thesis
    using h1 h2 h3 h4 r by (intro conjI)
qed

subsection \<open>Removing an entry\<close>








subsection \<open>Writing the list to disk\<close>

lemma WriteIP_loop_eq:
  assumes "wf_state st"
  shows "WriteIP_loop IPMASK i st =
     map (\<lambda>e. ''sv addip '' @ IPMASK (addr e)) (filter (\<lambda>e. expire e = 0) (drop i (entries st)))"
  using assms
proof (induction IPMASK i st rule: WriteIP_loop.induct)
  case (1 IPMASK i st)
  have len: "length (entries st) = unat (numipfilters st)"
    using "1.prems" by (rule length_entries)
  show ?case
  proof (cases "i < unat (numipfilters st)")
    case False
    then show ?thesis
      using len by (simp add: WriteIP_loop.simps [of IPMASK i st])
  next
    case lt: True
    have "drop i (entries st) = entries st ! i # drop (Suc i) (entries st)"
      using lt len by (simp add: Cons_nth_drop_Suc)
    then have split: "drop i (entries st) = ipfilters st ! i # drop (Suc i) (entries st)"
      using lt by (simp only: nth_entries)
    show ?thesis
    proof (cases "expire (ipfilters st ! i) \<noteq> 0")
      case True
      then show ?thesis
        using lt "1.IH"(1) [OF lt True "1.prems"]
        by (simp add: WriteIP_loop.simps [of IPMASK i st] split)
    next
      case False
      then show ?thesis
        using lt "1.IH"(2) [OF lt False "1.prems"]
        by (simp add: WriteIP_loop.simps [of IPMASK i st] split)
    qed
  qed
qed

lemma SVCmd_WriteIP_f_lines:
  assumes "wf_state st"
  shows "fst (SVCmd_WriteIP_f IPMASK filterban t True st) =
     Some ((''set filterban '' @ show_int filterban)
       # map (\<lambda>e. ''sv addip '' @ IPMASK (addr e))
           (filter (\<lambda>e. expire e = 0) (entries (TDM_CheckBans t st))))"
  using WriteIP_loop_eq [OF wf_TDM_CheckBans(1) [OF assms], of IPMASK 0 t]
  by (simp add: SVCmd_WriteIP_f_def Let_def)

lemma wf_ex_store_empty: "wf_state (ex_store cap [])"
  by (simp add: wf_state_def ex_store_def)

lemma TDM_CheckBans_ex_store_empty: "TDM_CheckBans t (ex_store cap []) = ex_store cap []"
  by (rule TDM_CheckBans_noop [OF wf_ex_store_empty]) (simp add: entries_def ex_store_def)

lemma AddIP_on_empty_store:
  assumes "ip \<noteq> []"
  shows "fst (SVCmd_AddIP_f parse 4 t ip expiry (ex_store 4 [])) = Added"
    and "wf_state (snd (SVCmd_AddIP_f parse 4 t ip expiry (ex_store 4 [])))"
    and "entries (snd (SVCmd_AddIP_f parse 4 t ip expiry (ex_store 4 [])))
      = [snd (StringToFilter parse t ip (expiry * 60))]"
proof -
  let ?st = "ex_store 4 []"
  have n: "numipfilters (TDM_CheckBans t ?st) \<noteq> 4"
    by (simp add: TDM_CheckBans_ex_store_empty) (simp add: ex_store_def)
  have len: "length (ipfilters ?st) = unat (4 :: 32 word)"
    by (simp add: ex_store_def)
  have n': "numipfilters ?st \<noteq> 4"
    by (simp add: ex_store_def)
  note ins = SVCmd_AddIP_f_insert [OF assms n, of parse expiry, unfolded TDM_CheckBans_ex_store_empty]
  note app = entries_append_slot [OF wf_ex_store_empty len n',
      of "snd (StringToFilter parse t ip (expiry * 60))"]
  have es: "entries ?st = []"
    by (simp add: entries_def ex_store_def)
  show "fst (SVCmd_AddIP_f parse 4 t ip expiry ?st) = Added"
    by (simp add: ins)
  show "wf_state (snd (SVCmd_AddIP_f parse 4 t ip expiry ?st))"
    using app(1) by (simp add: ins)
  show "entries (snd (SVCmd_AddIP_f parse 4 t ip expiry ?st))
      = [snd (StringToFilter parse t ip (expiry * 60))]"
    using app(2) by (simp add: ins es)
qed

text \<open>
  C1. \<^verbatim>\<open>SVCmd_WriteIP_f\<close> writes a line for the entries whose expiry field is 0 and for
  no others (\<open>SVCmd_WriteIP_f_lines\<close>), while a permanent entry carries the sentinel
  \<^verbatim>\<open>-1\<close>. So the permanent entry that \<^verbatim>\<open>sv addip 192.0.2.5\<close> puts into an empty store
  is missing from the file: the file holds the \<^verbatim>\<open>set filterban\<close> line only, although the
  comment in the loop says that the permanent bans are written.
\<close>

theorem WriteIP_omits_permanent_entry:
  "fst (SVCmd_AddIP_f parse 4 t ''192.0.2.5'' 0 (ex_store 4 [])) = Added
   \<and> entries (snd (SVCmd_AddIP_f parse 4 t ''192.0.2.5'' 0 (ex_store 4 [])))
       = [\<lparr>addr = parse ''192.0.2.5'', expire = - 1\<rparr>]
   \<and> permanent \<lparr>addr = parse ''192.0.2.5'', expire = - 1\<rparr>
   \<and> fst (SVCmd_WriteIP_f IPMASK 1 t' True
            (snd (SVCmd_AddIP_f parse 4 t ''192.0.2.5'' 0 (ex_store 4 []))))
       = Some [''set filterban 1'']"
proof -
  let ?st2 = "snd (SVCmd_AddIP_f parse 4 t ''192.0.2.5'' 0 (ex_store 4 []))"
  let ?e = "\<lparr>addr = parse ''192.0.2.5'', expire = - 1\<rparr>"
  have ne: "''192.0.2.5'' \<noteq> []"
    by simp
  note add = AddIP_on_empty_store [OF ne, of parse t 0]
  have es: "entries ?st2 = [?e]"
    using add(3) by (simp add: StringToFilter_zero)
  have "set (entries (TDM_CheckBans t' ?st2)) \<subseteq> {?e}"
    using set_entries_TDM_CheckBans [OF add(2), of t'] by (auto simp add: es)
  then have "filter (\<lambda>e. expire e = 0) (entries (TDM_CheckBans t' ?st2)) = []"
    by (auto simp add: filter_empty_conv)
  then have "fst (SVCmd_WriteIP_f IPMASK 1 t' True ?st2) = Some [''set filterban 1'']"
    by (simp add: SVCmd_WriteIP_f_lines [OF add(2)] show_int_def)
  then show ?thesis
    using add(1) es by (simp add: permanent_def)
qed

text \<open>
  C3. \<^verbatim>\<open>StringToFilter\<close> returns true for every text, so the test
  \<^verbatim>\<open>if (!StringToFilter(...)) return;\<close> of \<^verbatim>\<open>SVCmd_AddIP_f\<close> never fires: a text that
  is no address is inserted like any other, here into an empty store, whatever
  \<^verbatim>\<open>net_parseIPAddressMask\<close> makes of it.
\<close>

theorem AddIP_inserts_unparseable_text:
  "fst (StringToFilter parse t ''not-an-address'' 0) = True
   \<and> fst (SVCmd_AddIP_f parse 4 t ''not-an-address'' 0 (ex_store 4 [])) = Added
   \<and> entries (ex_store 4 []) = []
   \<and> entries (snd (SVCmd_AddIP_f parse 4 t ''not-an-address'' 0 (ex_store 4 [])))
       = [\<lparr>addr = parse ''not-an-address'', expire = - 1\<rparr>]"
proof -
  have ne: "''not-an-address'' \<noteq> []"
    by simp
  note add = AddIP_on_empty_store [OF ne, of parse t 0]
  show ?thesis
    using add(1,3) by (simp add: StringToFilter_zero entries_def ex_store_def)
qed

end
